theory Spec2Isabelle
  imports Main
begin

section \<open>The capture sink: data model\<close>

text \<open>
  The repository is one Go file, \<^verbatim>\<open>command.go\<close>: a struct \<^verbatim>\<open>command\<close> holding two
  \<^verbatim>\<open>io.Writer\<close> values, the constructor \<^verbatim>\<open>Capture\<close> and the method \<^verbatim>\<open>Executor\<close>,
  which calls \<^verbatim>\<open>io.Copy(c.stdout, stdin)\<close> and, when the copy returns an error, writes
  one line to \<^verbatim>\<open>c.stderr\<close> (if that is not nil) and returns the error.

  Byte sequences and Go strings are lists of 8-bit characters.
\<close>

type_synonym bytes = string

text \<open>
  Go's \<^verbatim>\<open>error\<close> values. \<^verbatim>\<open>io.Copy\<close> compares the reader's error with \<^verbatim>\<open>io.EOF\<close> by
  identity, so \<open>EOF\<close> is a constructor of its own; \<open>ErrShortWrite\<close> and
  \<open>ErrInvalidWrite\<close> are the two errors \<^verbatim>\<open>io.Copy\<close> creates itself; \<open>Canceled\<close> and
  \<open>DeadlineExceeded\<close> are the two errors of package \<^verbatim>\<open>context\<close>; \<open>Failure m\<close> is any
  other error, with message \<open>m\<close>. \<open>Error e\<close> is the method \<^verbatim>\<open>e.Error()\<close>.
\<close>

datatype error =
    EOF
  | ErrShortWrite
  | ErrInvalidWrite
  | Canceled
  | DeadlineExceeded
  | Failure bytes

fun Error :: "error \<Rightarrow> bytes" where
  "Error EOF = ''EOF''"
| "Error ErrShortWrite = ''short write''"
| "Error ErrInvalidWrite = ''invalid write result''"
| "Error Canceled = ''context canceled''"
| "Error DeadlineExceeded = ''context deadline exceeded''"
| "Error (Failure m) = m"

text \<open>
  A call of a method on a nil interface value panics; a panic is a result of its own,
  \<open>Inl NilDereference\<close>, never a returned error.
\<close>

datatype panic = NilDereference

text \<open>
  An \<^verbatim>\<open>io.Reader\<close> is the sequence of results its \<^verbatim>\<open>Read\<close> calls will give: \<open>src i\<close> is
  the result of the \<open>i\<close>-th call from now, the bytes it put into the buffer (so their
  number is \<^verbatim>\<open>nr\<close>) and the error it returned (\<open>None\<close> is Go's nil). The sequence is
  infinite: a reader need never report \<open>EOF\<close>.
\<close>

type_synonym reader = "nat \<Rightarrow> bytes \<times> error option"

text \<open>
  An \<^verbatim>\<open>io.Writer\<close> object. \<open>wlog\<close> is the list of the arguments of the \<^verbatim>\<open>Write\<close> calls it
  has received, oldest first; \<open>wdata\<close> the bytes it has accepted (of each call, the first
  \<^verbatim>\<open>n\<close> bytes of the argument, \<^verbatim>\<open>n\<close> being the count the call returned); \<open>wresp\<close> is its
  behaviour: the count and the error that \<^verbatim>\<open>Write\<close> returns, given the calls received
  before and the argument. The count is an \<^verbatim>\<open>int\<close>, and nothing forces an implementation
  to keep it between 0 and the length of the argument.
\<close>

record writer =
  wlog :: "bytes list"
  wdata :: bytes
  wresp :: "bytes list \<Rightarrow> bytes \<Rightarrow> int \<times> error option"

text \<open>
  Writers are objects on the heap, and an interface value of type \<^verbatim>\<open>io.Writer\<close> is either
  nil (\<open>None\<close>) or a reference to one of them (\<open>Some h\<close>). Two interface values with the
  same reference are the same writer.
\<close>

type_synonym heap = "nat \<Rightarrow> writer"

type_synonym Writer = "nat option"

definition Write :: "Writer \<Rightarrow> bytes \<Rightarrow> heap \<Rightarrow> panic + (heap \<times> int \<times> error option)" where
  "Write w p s =
     (case w of
        None \<Rightarrow> Inl NilDereference
      | Some h \<Rightarrow>
          (case wresp (s h) (wlog (s h)) p of
             (n, err) \<Rightarrow>
               Inr (s(h := (s h)\<lparr>wlog := wlog (s h) @ [p],
                                 wdata := wdata (s h) @ take (nat n) p\<rparr>), n, err)))"

section \<open>io.Copy\<close>

text \<open>
  \<^verbatim>\<open>io.Copy\<close> belongs to Go's standard library. Its generic path is the loop of
  \<^verbatim>\<open>copyBuffer\<close>:
  \<^verbatim>\<open>
  for {
    nr, er := src.Read(buf)
    if nr > 0 {
      nw, ew := dst.Write(buf[0:nr])
      if nw < 0 || nr < nw { nw = 0; if ew == nil { ew = errInvalidWrite } }
      written += int64(nw)
      if ew != nil { err = ew; break }
      if nr != nw { err = ErrShortWrite; break }
    }
    if er != nil { if er != EOF { err = er }; break }
  }
  return written, err
  \<close>
  \<open>copyBuffer dst src i written s\<close> is that loop from the \<open>i\<close>-th read on. The loop has no
  bound of its own, so the result is an option: \<open>None\<close> when it never leaves the loop.
  The shortcuts \<^verbatim>\<open>io.Copy\<close> takes when the source has a \<^verbatim>\<open>WriteTo\<close> or the destination a
  \<^verbatim>\<open>ReadFrom\<close> method are taken to behave as this loop does.
\<close>

partial_function (option) copyBuffer ::
  "Writer \<Rightarrow> reader \<Rightarrow> nat \<Rightarrow> int \<Rightarrow> heap \<Rightarrow> (heap \<times> (panic + int \<times> error option)) option"
where
  "copyBuffer dst src i written s =
     (case src i of
        (chunk, er) \<Rightarrow>
          let nr = int (length chunk) in
          if 0 < nr then
            (case Write dst chunk s of
               Inl p \<Rightarrow> Some (s, Inl p)
             | Inr (s', nw0, ew0) \<Rightarrow>
                 let invalid = (nw0 < 0 \<or> nr < nw0);
                     nw = (if invalid then 0 else nw0);
                     ew = (if invalid \<and> ew0 = None then Some ErrInvalidWrite else ew0);
                     written' = written + nw
                 in
                   if ew \<noteq> None then Some (s', Inr (written', ew))
                   else if nr \<noteq> nw then Some (s', Inr (written', Some ErrShortWrite))
                   else if er \<noteq> None then
                     Some (s', Inr (written', if er \<noteq> Some EOF then er else None))
                   else copyBuffer dst src (Suc i) written' s')
          else if er \<noteq> None then
            Some (s, Inr (written, if er \<noteq> Some EOF then er else None))
          else copyBuffer dst src (Suc i) written s)"

declare copyBuffer.simps [code]

definition Copy :: "Writer \<Rightarrow> reader \<Rightarrow> heap \<Rightarrow> (heap \<times> (panic + int \<times> error option)) option" where
  "Copy dst src s = copyBuffer dst src 0 0 s"

section \<open>The command\<close>

record command =
  stdout :: Writer
  stderr :: Writer

definition Capture :: "Writer \<Rightarrow> Writer \<Rightarrow> command" where
  "Capture out err = \<lparr>stdout = out, stderr = err\<rparr>"

text \<open>
  \<^verbatim>\<open>context.Context\<close>: \<open>ctx i\<close> is what \<^verbatim>\<open>ctx.Err()\<close> would return during the \<open>i\<close>-th read
  of the copy, \<open>None\<close> while the context is live.
\<close>

type_synonym Context = "nat \<Rightarrow> error option"

text \<open>
  The function \<^verbatim>\<open>Executor\<close> returns, applied to its four arguments and the heap. The two
  writers of the host are the parameters the source names \<^verbatim>\<open>_\<close>. The results of the
  \<^verbatim>\<open>Write\<close> to \<^verbatim>\<open>c.stderr\<close> are dropped, as in the source.
\<close>

definition Executor ::
  "command \<Rightarrow> Context \<Rightarrow> reader \<Rightarrow> Writer \<Rightarrow> Writer \<Rightarrow> heap \<Rightarrow> (heap \<times> (panic + error option)) option"
where
  "Executor c ctx stdin uu1 uu2 s =
     (case Copy (stdout c) stdin s of
        None \<Rightarrow> None
      | Some (s1, Inl p) \<Rightarrow> Some (s1, Inl p)
      | Some (s1, Inr (n, err)) \<Rightarrow>
          (case err of
             Some e \<Rightarrow>
               if stderr c \<noteq> None then
                 (case Write (stderr c) (''capture: '' @ Error e @ ''\<newline>'') s1 of
                    Inl p \<Rightarrow> Some (s1, Inl p)
                  | Inr (s2, m, err2) \<Rightarrow> Some (s2, Inr (Some e)))
               else Some (s1, Inr (Some e))
           | None \<Rightarrow> Some (s1, Inr None)))"

section \<open>Concrete readers and writers\<close>

text \<open>
  \<open>script rs\<close> is the reader whose calls return the results \<open>rs\<close>, one after the other,
  and no bytes with \<open>EOF\<close> from then on (a \<^verbatim>\<open>strings.Reader\<close> or a closed pipe).
\<close>

definition script :: "(bytes \<times> error option) list \<Rightarrow> reader" where
  "script rs i = (if i < length rs then rs ! i else ([], Some EOF))"

text \<open>
  \<open>buffer\<close> is an empty \<^verbatim>\<open>bytes.Buffer\<close>: every \<^verbatim>\<open>Write\<close> takes the whole argument and returns
  no error. \<open>broken e\<close> takes nothing and returns the error \<open>e\<close> at every call.
  \<open>buffers\<close> is a heap of empty buffers, \<open>with_broken h e\<close> the same heap with a
  broken writer at \<open>h\<close>.
\<close>

definition buffer :: writer where
  "buffer = \<lparr>wlog = [], wdata = [], wresp = (\<lambda>calls p. (int (length p), None))\<rparr>"

definition broken :: "error \<Rightarrow> writer" where
  "broken e = \<lparr>wlog = [], wdata = [], wresp = (\<lambda>calls p. (0, Some e))\<rparr>"

definition buffers :: heap where
  "buffers = (\<lambda>h. buffer)"

definition with_broken :: "nat \<Rightarrow> error \<Rightarrow> heap" where
  "with_broken h e = buffers(h := broken e)"

definition background :: Context where
  "background = (\<lambda>i. None)"

definition cancelled_from :: "nat \<Rightarrow> Context" where
  "cancelled_from k = (\<lambda>i. if k \<le> i then Some Canceled else None)"

section \<open>Vocabulary of the properties\<close>

text \<open>
  A writer accepts when every \<^verbatim>\<open>Write\<close> succeeds: it takes the whole argument and returns
  no error, whatever it has received before.
\<close>

definition accepts :: "writer \<Rightarrow> bool" where
  "accepts w \<longleftrightarrow> (\<forall>calls p. wresp w calls p = (int (length p), None))"

text \<open>
  \<open>writes_succeed w ps\<close>: asked to write the slices \<open>ps\<close> one after the other, the writer
  \<open>w\<close> takes each of them whole and returns no error. A writer that accepts does so for
  every \<open>ps\<close>.
\<close>

definition writes_succeed :: "writer \<Rightarrow> bytes list \<Rightarrow> bool" where
  "writes_succeed w ps \<longleftrightarrow>
     (\<forall>j<length ps. wresp w (wlog w @ take j ps) (ps ! j) = (int (length (ps ! j)), None))"

text \<open>
  \<open>reads_until src k e\<close>: the reads before the \<open>k\<close>-th return no error and the \<open>k\<close>-th
  returns the error \<open>e\<close>. With \<open>e = EOF\<close> every read has succeeded and the input has
  ended. \<open>chunks src i k\<close> are the byte slices of the reads \<open>i\<close> to \<open>k\<close>, and
  \<open>received src k\<close> the byte sequence of the input up to the \<open>k\<close>-th read.
\<close>

definition reads_until :: "reader \<Rightarrow> nat \<Rightarrow> error \<Rightarrow> bool" where
  "reads_until src k e \<longleftrightarrow> (\<forall>i<k. snd (src i) = None) \<and> snd (src k) = Some e"

definition chunks :: "reader \<Rightarrow> nat \<Rightarrow> nat \<Rightarrow> bytes list" where
  "chunks src i k = map (\<lambda>j. fst (src j)) [i..<Suc k]"

definition received :: "reader \<Rightarrow> nat \<Rightarrow> bytes" where
  "received src k = concat (chunks src 0 k)"

text \<open>
  What is seen of an execution that has returned: its result, and of the writer at \<open>h\<close>
  the object itself, the bytes it holds and the calls it has received. All are \<open>None\<close>
  for an execution that does not return.
\<close>

definition outcome :: "(heap \<times> 'a) option \<Rightarrow> 'a option" where
  "outcome x = map_option snd x"

definition writer_at :: "nat \<Rightarrow> (heap \<times> 'a) option \<Rightarrow> writer option" where
  "writer_at h x = map_option (\<lambda>y. fst y h) x"

definition contents :: "nat \<Rightarrow> (heap \<times> 'a) option \<Rightarrow> bytes option" where
  "contents h x = map_option wdata (writer_at h x)"

definition calls :: "nat \<Rightarrow> (heap \<times> 'a) option \<Rightarrow> bytes list option" where
  "calls h x = map_option wlog (writer_at h x)"

section \<open>Lemmas on the copy loop\<close>

text \<open>One iteration: a read of no bytes, and a read whose bytes the writer takes whole.\<close>

lemma copyBuffer_no_bytes_continue:
  "src i = ([], None) \<Longrightarrow> copyBuffer dst src i w s = copyBuffer dst src (Suc i) w s"
  by (subst copyBuffer.simps) simp

lemma copyBuffer_no_bytes_stop:
  "src i = ([], Some e) \<Longrightarrow>
   copyBuffer dst src i w s = Some (s, Inr (w, if e = EOF then None else Some e))"
  by (subst copyBuffer.simps) simp

lemma copyBuffer_full_write:
  assumes "src i = (c, er)" "c \<noteq> []" "Write dst c s = Inr (s', int (length c), None)"
  shows "copyBuffer dst src i w s =
    (case er of
       None \<Rightarrow> copyBuffer dst src (Suc i) (w + int (length c)) s'
     | Some e \<Rightarrow> Some (s', Inr (w + int (length c), if e = EOF then None else Some e)))"
  using assms by (subst copyBuffer.simps) (simp add: Let_def split: option.split)

text \<open>What the loop leaves alone: every writer but its destination.\<close>

lemma copyBuffer_frame_aux:
  assumes "copyBuffer dst src i w s = Some y"
  shows "dst \<noteq> Some h \<longrightarrow> fst y h = s h"
proof (rule copyBuffer.raw_induct
    [where P = "\<lambda>dst src i w s y. dst \<noteq> Some h \<longrightarrow> fst y h = s h", OF _ assms], goal_cases)
  case (1 copyBuffer dst src i written s y)
  show ?case
  proof
    assume ne: "dst \<noteq> Some h"
    obtain c er where c: "src i = (c, er)" by (cases "src i")
    show "fst y h = s h"
    proof (cases "c = []")
      case True
      then show ?thesis using 1 c ne by (auto split: if_splits)
    next
      case False
      show ?thesis
      proof (cases dst)
        case None
        then show ?thesis using 1(2) c False by (auto simp: Write_def)
      next
        case (Some d)
        obtain n ew where r: "wresp (s d) (wlog (s d)) c = (n, ew)"
          by (cases "wresp (s d) (wlog (s d)) c")
        let ?s1 = "s(d := (s d)\<lparr>wlog := wlog (s d) @ [c], wdata := wdata (s d) @ take (nat n) c\<rparr>)"
        have w: "Write dst c s = Inr (?s1, n, ew)" using Some r by (simp add: Write_def)
        have s1: "?s1 h = s h" using ne Some by auto
        from 1(2) c False w have
          "fst y = ?s1 \<or> copyBuffer dst src (Suc i) (written + n) ?s1 = Some y"
          by (auto simp: Let_def split: if_splits)
        then show ?thesis using 1(1)[of dst src "Suc i" "written + n" ?s1 y] ne s1 by auto
      qed
    qed
  qed
qed

lemma copyBuffer_frame:
  "copyBuffer dst src i w s = Some (s', r) \<Longrightarrow> dst \<noteq> Some h \<Longrightarrow> s' h = s h"
  using copyBuffer_frame_aux[of dst src i w s "(s', r)" h] by simp

text \<open>
  The whole loop, when every write it issues succeeds and the first read to return an
  error is the \<open>k\<close>-th: by induction on the number of reads left.
\<close>

lemma chunks_step: "i < Suc k \<Longrightarrow> chunks src i k = fst (src i) # (if i < k then chunks src (Suc i) k else [])"
  by (auto simp: chunks_def upt_conv_Cons simp del: upt_Suc)

lemma accepts_writes_succeed: "accepts w \<Longrightarrow> writes_succeed w ps"
  by (simp add: accepts_def writes_succeed_def)

lemma writes_succeed_Cons:
  assumes "writes_succeed w (p # ps)"
  shows "wresp w (wlog w) p = (int (length p), None)"
    and "wresp w' = wresp w \<Longrightarrow> wlog w' = wlog w @ [p] \<Longrightarrow> writes_succeed w' ps"
proof -
  have all: "\<And>j. j < length (p # ps) \<Longrightarrow>
      wresp w (wlog w @ take j (p # ps)) ((p # ps) ! j) = (int (length ((p # ps) ! j)), None)"
    using assms unfolding writes_succeed_def by blast
  show "wresp w (wlog w) p = (int (length p), None)"
    using all[of 0] by simp
  assume a: "wresp w' = wresp w" "wlog w' = wlog w @ [p]"
  show "writes_succeed w' ps"
    unfolding writes_succeed_def
  proof (intro allI impI)
    fix j assume "j < length ps"
    then have "wresp w (wlog w @ take (Suc j) (p # ps)) ((p # ps) ! Suc j)
        = (int (length ((p # ps) ! Suc j)), None)"
      using all[of "Suc j"] by simp
    then show "wresp w' (wlog w' @ take j ps) (ps ! j) = (int (length (ps ! j)), None)"
      using a by simp
  qed
qed

lemma Write_succeeds:
  "wresp (s h) (wlog (s h)) p = (int (length p), None) \<Longrightarrow>
   Write (Some h) p s =
     Inr (s(h := (s h)\<lparr>wlog := wlog (s h) @ [p], wdata := wdata (s h) @ p\<rparr>), int (length p), None)"
  by (simp add: Write_def)

lemma copyBuffer_writes_succeed:
  assumes "writes_succeed (s h) (filter (\<lambda>c. c \<noteq> []) (chunks src i k))"
    "\<forall>j. i \<le> j \<and> j < k \<longrightarrow> snd (src j) = None" "snd (src k) = Some e" "i \<le> k"
  shows "\<exists>s'. copyBuffer (Some h) src i w s =
            Some (s', Inr (w + int (length (concat (chunks src i k))), if e = EOF then None else Some e))
          \<and> wlog (s' h) = wlog (s h) @ filter (\<lambda>c. c \<noteq> []) (chunks src i k)
          \<and> wdata (s' h) = wdata (s h) @ concat (chunks src i k)
          \<and> wresp (s' h) = wresp (s h)
          \<and> (\<forall>h'. h' \<noteq> h \<longrightarrow> s' h' = s h')"
  using assms
proof (induction "k - i" arbitrary: i w s)
  case 0
  then have ik: "i = k" by simp
  obtain c where c: "src k = (c, Some e)" using 0(4) by (cases "src k") auto
  have ch: "chunks src i k = [c]" using ik c by (simp add: chunks_def)
  show ?case
  proof (cases "c = []")
    case True
    then show ?thesis using copyBuffer_no_bytes_stop[of src k e "Some h" w s] c ik ch by simp
  next
    case False
    have first: "wresp (s h) (wlog (s h)) c = (int (length c), None)"
      using writes_succeed_Cons(1)[of "s h" c "[]"] 0(2) ch False by simp
    show ?thesis
      using copyBuffer_full_write[of src k c "Some e" "Some h" s _ w, OF c False
          Write_succeeds[of s h c, OF first]] ik ch False by simp
  qed
next
  case (Suc n)
  then have lt: "i < k" by simp
  with Suc(4) obtain c where c: "src i = (c, None)" by (cases "src i") auto
  have ch: "chunks src i k = c # chunks src (Suc i) k" using chunks_step[of i k src] lt c by simp
  show ?case
  proof (cases "c = []")
    case True
    have "\<exists>s'. copyBuffer (Some h) src (Suc i) w s =
            Some (s', Inr (w + int (length (concat (chunks src (Suc i) k))), if e = EOF then None else Some e))
          \<and> wlog (s' h) = wlog (s h) @ filter (\<lambda>c. c \<noteq> []) (chunks src (Suc i) k)
          \<and> wdata (s' h) = wdata (s h) @ concat (chunks src (Suc i) k)
          \<and> wresp (s' h) = wresp (s h)
          \<and> (\<forall>h'. h' \<noteq> h \<longrightarrow> s' h' = s h')"
      using Suc(1)[of "Suc i" s w] Suc(2-6) lt ch True by simp
    then show ?thesis using copyBuffer_no_bytes_continue[of src i "Some h" w s] c True ch by simp
  next
    case False
    let ?s1 = "s(h := (s h)\<lparr>wlog := wlog (s h) @ [c], wdata := wdata (s h) @ c\<rparr>)"
    have ws: "writes_succeed (s h) (c # filter (\<lambda>c. c \<noteq> []) (chunks src (Suc i) k))"
      using Suc(3) ch False by simp
    have first: "wresp (s h) (wlog (s h)) c = (int (length c), None)"
      using writes_succeed_Cons(1)[OF ws] .
    have rest: "writes_succeed (?s1 h) (filter (\<lambda>c. c \<noteq> []) (chunks src (Suc i) k))"
      using writes_succeed_Cons(2)[OF ws, of "?s1 h"] by simp
    have "\<exists>s'. copyBuffer (Some h) src (Suc i) (w + int (length c)) ?s1 =
            Some (s', Inr (w + int (length c) + int (length (concat (chunks src (Suc i) k))), if e = EOF then None else Some e))
          \<and> wlog (s' h) = wlog (?s1 h) @ filter (\<lambda>c. c \<noteq> []) (chunks src (Suc i) k)
          \<and> wdata (s' h) = wdata (?s1 h) @ concat (chunks src (Suc i) k)
          \<and> wresp (s' h) = wresp (?s1 h)
          \<and> (\<forall>h'. h' \<noteq> h \<longrightarrow> s' h' = ?s1 h')"
      using Suc(1)[of "Suc i" ?s1 "w + int (length c)"] Suc(2) Suc(4-6) lt rest by simp
    then show ?thesis
      using copyBuffer_full_write[of src i c None "Some h" s _ w, OF c False
          Write_succeeds[of s h c, OF first]] ch False by auto
  qed
qed

lemma Copy_writes_succeed:
  assumes "writes_succeed (s h) (filter (\<lambda>c. c \<noteq> []) (chunks src 0 k))" "reads_until src k e"
  shows "\<exists>s1. Copy (Some h) src s =
            Some (s1, Inr (int (length (received src k)), if e = EOF then None else Some e))
          \<and> wlog (s1 h) = wlog (s h) @ filter (\<lambda>c. c \<noteq> []) (chunks src 0 k)
          \<and> wdata (s1 h) = wdata (s h) @ received src k
          \<and> wresp (s1 h) = wresp (s h)
          \<and> (\<forall>h'. h' \<noteq> h \<longrightarrow> s1 h' = s h')"
  using copyBuffer_writes_succeed[of s h src 0 k e 0] assms
  by (simp add: Copy_def received_def reads_until_def)

lemma Write_accepts:
  "accepts (s h) \<Longrightarrow>
   Write (Some h) p s =
     Inr (s(h := (s h)\<lparr>wlog := wlog (s h) @ [p], wdata := wdata (s h) @ p\<rparr>), int (length p), None)"
  by (simp add: Write_def accepts_def)

lemma Copy_accepts:
  assumes "accepts (s h)" "reads_until src k e"
  shows "\<exists>s1. Copy (Some h) src s =
            Some (s1, Inr (int (length (received src k)), if e = EOF then None else Some e))
          \<and> wlog (s1 h) = wlog (s h) @ filter (\<lambda>c. c \<noteq> []) (chunks src 0 k)
          \<and> wdata (s1 h) = wdata (s h) @ received src k
          \<and> wresp (s1 h) = wresp (s h)
          \<and> (\<forall>h'. h' \<noteq> h \<longrightarrow> s1 h' = s h')"
  using Copy_writes_succeed[of s h src k e] accepts_writes_succeed[of "s h"] assms by simp

section \<open>Lemmas on the executor\<close>

lemma Executor_success:
  "Copy (stdout c) stdin s = Some (s1, Inr (n, None)) \<Longrightarrow>
   Executor c ctx stdin hout herr s = Some (s1, Inr None)"
  by (simp add: Executor_def)

lemma Executor_failure_nil:
  "Copy (stdout c) stdin s = Some (s1, Inr (n, Some e)) \<Longrightarrow> stderr c = None \<Longrightarrow>
   Executor c ctx stdin hout herr s = Some (s1, Inr (Some e))"
  by (simp add: Executor_def)

lemma Executor_failure:
  "Copy (stdout c) stdin s = Some (s1, Inr (n, Some e)) \<Longrightarrow>
   Write (stderr c) (''capture: '' @ Error e @ ''\<newline>'') s1 = Inr (s2, m, e2) \<Longrightarrow>
   Executor c ctx stdin hout herr s = Some (s2, Inr (Some e))"
  by (auto simp: Executor_def Write_def split: option.splits)

lemma Write_Some:
  "Write (Some h) p s =
     Inr (s(h := (s h)\<lparr>wlog := wlog (s h) @ [p],
                       wdata := wdata (s h) @ take (nat (fst (wresp (s h) (wlog (s h)) p))) p\<rparr>),
          fst (wresp (s h) (wlog (s h)) p), snd (wresp (s h) (wlog (s h)) p))"
  by (simp add: Write_def split: prod.split)

lemma Copy_frame:
  "Copy dst src s = Some (s', r) \<Longrightarrow> dst \<noteq> Some h \<Longrightarrow> s' h = s h"
  unfolding Copy_def by (rule copyBuffer_frame)

lemma Executor_frame:
  assumes "Executor c ctx stdin hout herr s = Some (s', r)" "stdout c \<noteq> Some h" "stderr c \<noteq> Some h"
  shows "s' h = s h"
  using assms Copy_frame[of "stdout c" stdin s _ _ h]
  by (auto simp: Executor_def Write_Some split: option.splits sum.splits if_splits)

lemma Executor_returns_nil:
  assumes "Executor c ctx stdin hout herr s = Some (s', Inr None)"
  shows "\<exists>n. Copy (stdout c) stdin s = Some (s', Inr (n, None))"
  using assms
  by (auto simp: Executor_def Write_Some split: option.splits sum.splits if_splits)

text \<open>
  With writers that accept and an input whose first error is \<open>e\<close> at the \<open>k\<close>-th read,
  the whole execution is known: the result, and what the two destinations hold and have
  been asked to write, whether they are one writer or two.
\<close>

lemma Executor_accepting:
  assumes "stdout c = Some h" "stderr c = Some h'" "accepts (s h)" "accepts (s h')"
    "reads_until stdin k e"
  shows "outcome (Executor c ctx stdin hout herr s) = Some (Inr (if e = EOF then None else Some e))
    \<and> contents h (Executor c ctx stdin hout herr s) =
           Some (wdata (s h) @ received stdin k @
                 (if e \<noteq> EOF \<and> h' = h then ''capture: '' @ Error e @ ''\<newline>'' else []))
    \<and> contents h' (Executor c ctx stdin hout herr s) =
           Some ((if h' = h then wdata (s h) @ received stdin k else wdata (s h')) @
                 (if e = EOF then [] else ''capture: '' @ Error e @ ''\<newline>''))
    \<and> calls h (Executor c ctx stdin hout herr s) =
           Some (wlog (s h) @ filter (\<lambda>c. c \<noteq> []) (chunks stdin 0 k) @
                 (if e \<noteq> EOF \<and> h' = h then [''capture: '' @ Error e @ ''\<newline>''] else []))
    \<and> calls h' (Executor c ctx stdin hout herr s) =
           Some ((if h' = h then wlog (s h) @ filter (\<lambda>c. c \<noteq> []) (chunks stdin 0 k) else wlog (s h')) @
                 (if e = EOF then [] else [''capture: '' @ Error e @ ''\<newline>'']))"
proof -
  obtain s1 where s1: "Copy (Some h) stdin s =
            Some (s1, Inr (int (length (received stdin k)), if e = EOF then None else Some e))"
     and l1: "wlog (s1 h) = wlog (s h) @ filter (\<lambda>c. c \<noteq> []) (chunks stdin 0 k)"
     and d1: "wdata (s1 h) = wdata (s h) @ received stdin k"
     and r1: "wresp (s1 h) = wresp (s h)"
     and f1: "\<forall>x. x \<noteq> h \<longrightarrow> s1 x = s x"
    using Copy_accepts[of s h stdin k e] assms(3,5) by blast
  have acc: "accepts (s1 h')"
    using assms(3,4) r1 f1 by (cases "h' = h") (simp_all add: accepts_def)
  show ?thesis
  proof (cases "e = EOF")
    case True
    have "Executor c ctx stdin hout herr s = Some (s1, Inr None)"
      using Executor_success[of c stdin s s1 _ ctx hout herr] s1 assms(1) True by simp
    then show ?thesis
      using True l1 d1 f1 by (simp add: outcome_def contents_def calls_def writer_at_def)
  next
    case False
    let ?line = "''capture: '' @ Error e @ ''\<newline>''"
    let ?s2 = "s1(h' := (s1 h')\<lparr>wlog := wlog (s1 h') @ [?line], wdata := wdata (s1 h') @ ?line\<rparr>)"
    have "Write (stderr c) ?line s1 = Inr (?s2, int (length ?line), None)"
      using Write_accepts[of s1 h' ?line, OF acc] assms(2) by simp
    then have "Executor c ctx stdin hout herr s = Some (?s2, Inr (Some e))"
      using Executor_failure[of c stdin s s1 _ e ?s2 _ _ ctx hout herr] s1 assms(1) False by simp
    then show ?thesis
      using False l1 d1 f1 by (simp add: outcome_def contents_def calls_def writer_at_def)
  qed
qed

section \<open>The claims\<close>

text \<open>
  Claim C1. For every input, the empty one included: when every read succeeds until the
  input reports its end (at the \<open>k\<close>-th read) and every \<^verbatim>\<open>Write\<close> the copy issues to the
  destination for normal output succeeds, the executor returns nil and the destination
  holds what it held before followed by the bytes of the input, in order and unchanged.
\<close>

theorem copies_input_on_success:
  assumes "stdout c = Some h" "reads_until stdin k EOF"
    and "writes_succeed (s h) (filter (\<lambda>p. p \<noteq> []) (chunks stdin 0 k))"
  shows "outcome (Executor c ctx stdin hout herr s) = Some (Inr None)
       \<and> contents h (Executor c ctx stdin hout herr s) = Some (wdata (s h) @ received stdin k)"
proof -
  obtain s1 where "Copy (Some h) stdin s = Some (s1, Inr (int (length (received stdin k)), None))"
    and d: "wdata (s1 h) = wdata (s h) @ received stdin k"
    using Copy_writes_succeed[of s h stdin k EOF] assms(2,3) by auto
  then have "Executor c ctx stdin hout herr s = Some (s1, Inr None)"
    using Executor_success[of c stdin s s1 _ ctx hout herr] assms(1) by simp
  then show ?thesis using d by (simp add: outcome_def contents_def writer_at_def)
qed

theorem copies_input_on_success_witness:
  "stdout (Capture (Some 0) (Some 1)) = Some 0
   \<and> reads_until (script [(''line1\<newline>'', None), (''line2\<newline>'', None)]) 2 EOF
   \<and> writes_succeed (buffers 0)
        (filter (\<lambda>p. p \<noteq> []) (chunks (script [(''line1\<newline>'', None), (''line2\<newline>'', None)]) 0 2))
   \<and> outcome (Executor (Capture (Some 0) (Some 1)) background
        (script [(''line1\<newline>'', None), (''line2\<newline>'', None)]) None None buffers) = Some (Inr None)
   \<and> contents 0 (Executor (Capture (Some 0) (Some 1)) background
        (script [(''line1\<newline>'', None), (''line2\<newline>'', None)]) None None buffers)
       = Some ''line1\<newline>line2\<newline>''"
proof -
  let ?r = "script [(''line1\<newline>'', None), (''line2\<newline>'', None)]"
  have a: "stdout (Capture (Some 0) (Some 1)) = Some 0" by (simp add: Capture_def)
  have b: "reads_until ?r 2 EOF" by (auto simp: reads_until_def script_def less_Suc_eq numeral_2_eq_2)
  have c: "writes_succeed (buffers 0) (filter (\<lambda>p. p \<noteq> []) (chunks ?r 0 2))"
    by (simp add: writes_succeed_def buffers_def buffer_def)
  have d: "received ?r 2 = ''line1\<newline>line2\<newline>''"
    by (simp add: received_def chunks_def script_def upt_conv_Cons numeral_2_eq_2 del: upt_Suc)
  have e: "wdata (buffers 0) = []" by (simp add: buffers_def buffer_def)
  note t = copies_input_on_success[of "Capture (Some 0) (Some 1)" 0 ?r 2 buffers background None None,
      OF a b c]
  have t2: "contents 0 (Executor (Capture (Some 0) (Some 1)) background ?r None None buffers)
       = Some ''line1\<newline>line2\<newline>''"
    using t[THEN conjunct2] d e by simp
  show ?thesis using a b c t[THEN conjunct1] t2 by blast
qed

text \<open>
  Claim C2. When the copy fails with the error \<open>e\<close> (a read error or a write error to
  the destination for normal output) and the error destination is a writer \<open>h\<close>, the
  executor returns \<open>e\<close> and the error destination receives exactly one more \<^verbatim>\<open>Write\<close>
  call, after all the calls of the copy, whose argument is \<^verbatim>\<open>"capture: "\<close>, the message of
  \<open>e\<close> and a newline; a destination that accepts holds that line after what it held;
  no other writer is touched after the copy.
\<close>

theorem diagnostic_line_on_failure:
  assumes "outcome (Copy (stdout c) stdin s) = Some (Inr (n, Some e))" "stderr c = Some h"
  shows "outcome (Executor c ctx stdin hout herr s) = Some (Inr (Some e))
       \<and> calls h (Executor c ctx stdin hout herr s) =
           map_option (\<lambda>l. l @ [''capture: '' @ Error e @ ''\<newline>'']) (calls h (Copy (stdout c) stdin s))
       \<and> (\<forall>w. writer_at h (Copy (stdout c) stdin s) = Some w \<and> accepts w \<longrightarrow>
             contents h (Executor c ctx stdin hout herr s) = Some (wdata w @ ''capture: '' @ Error e @ ''\<newline>''))
       \<and> (\<forall>h'. h' \<noteq> h \<longrightarrow> writer_at h' (Executor c ctx stdin hout herr s) = writer_at h' (Copy (stdout c) stdin s))"
proof -
  obtain s1 where s1: "Copy (stdout c) stdin s = Some (s1, Inr (n, Some e))"
    using assms(1) by (auto simp: outcome_def)
  let ?line = "''capture: '' @ Error e @ ''\<newline>''"
  define s2 where s2: "s2 = s1(h := (s1 h)\<lparr>wlog := wlog (s1 h) @ [?line],
               wdata := wdata (s1 h) @ take (nat (fst (wresp (s1 h) (wlog (s1 h)) ?line))) ?line\<rparr>)"
  have w: "Write (stderr c) ?line s1 =
      Inr (s2, fst (wresp (s1 h) (wlog (s1 h)) ?line), snd (wresp (s1 h) (wlog (s1 h)) ?line))"
    unfolding s2 assms(2) by (rule Write_Some)
  have ex: "Executor c ctx stdin hout herr s = Some (s2, Inr (Some e))"
    using Executor_failure[OF s1 w] .
  show ?thesis
    using ex s1 s2 by (auto simp: outcome_def calls_def contents_def writer_at_def accepts_def)
qed

theorem diagnostic_line_on_failure_witness:
  "outcome (Copy (stdout (Capture (Some 0) (Some 1))) (script [(''data'', None)])
      (with_broken 0 (Failure ''disk full''))) = Some (Inr (0, Some (Failure ''disk full'')))
   \<and> stderr (Capture (Some 0) (Some 1)) = Some 1
   \<and> outcome (Executor (Capture (Some 0) (Some 1)) background (script [(''data'', None)]) None None
        (with_broken 0 (Failure ''disk full''))) = Some (Inr (Some (Failure ''disk full'')))
   \<and> calls 1 (Executor (Capture (Some 0) (Some 1)) background (script [(''data'', None)]) None None
        (with_broken 0 (Failure ''disk full''))) = Some [''capture: disk full\<newline>'']
   \<and> contents 1 (Executor (Capture (Some 0) (Some 1)) background (script [(''data'', None)]) None None
        (with_broken 0 (Failure ''disk full''))) = Some ''capture: disk full\<newline>''"
proof -
  let ?c = "Capture (Some 0) (Some 1)"
  let ?r = "script [(''data'', None)]"
  let ?s = "with_broken 0 (Failure ''disk full'')"
  have cp: "Copy (stdout ?c) ?r ?s =
      Some (?s(0 := (broken (Failure ''disk full''))\<lparr>wlog := [''data'']\<rparr>), Inr (0, Some (Failure ''disk full'')))"
    by (simp add: Copy_def copyBuffer.simps Let_def Capture_def script_def Write_def with_broken_def
        buffers_def broken_def)
  have a: "outcome (Copy (stdout ?c) ?r ?s) = Some (Inr (0, Some (Failure ''disk full'')))"
    using cp by (simp add: outcome_def)
  have b: "stderr ?c = Some 1" by (simp add: Capture_def)
  have w: "writer_at 1 (Copy (stdout ?c) ?r ?s) = Some buffer \<and> accepts buffer"
    using cp by (simp add: writer_at_def with_broken_def buffers_def accepts_def buffer_def)
  have l: "calls 1 (Copy (stdout ?c) ?r ?s) = Some []"
    using cp by (simp add: calls_def writer_at_def with_broken_def buffers_def buffer_def)
  have d: "wdata buffer = []" by (simp add: buffer_def)
  show ?thesis
    using diagnostic_line_on_failure[of ?c ?r ?s 0 "Failure ''disk full''" 1 background None None] a b w l d by simp
qed

text \<open>
  Claim C3. When the copy fails with the error \<open>e\<close> and the \<^verbatim>\<open>Write\<close> of the diagnostic
  line to the error destination fails too, with whatever count \<open>m\<close> and error \<open>e2\<close>,
  the executor returns \<open>e\<close>: the second failure is dropped.
\<close>

theorem diagnostic_failure_ignored:
  assumes "Copy (stdout c) stdin s = Some (s1, Inr (n, Some e))"
    and "Write (stderr c) (''capture: '' @ Error e @ ''\<newline>'') s1 = Inr (s2, m, Some e2)"
  shows "Executor c ctx stdin hout herr s = Some (s2, Inr (Some e))"
  using assms by (rule Executor_failure)

theorem diagnostic_failure_ignored_witness:
  "Copy (stdout (Capture (Some 0) (Some 1))) (script [(''data'', None)])
      ((with_broken 0 (Failure ''disk full''))(1 := broken (Failure ''pipe closed'')))
     = Some ((with_broken 0 (Failure ''disk full''))
               (1 := broken (Failure ''pipe closed''),
                0 := (broken (Failure ''disk full''))\<lparr>wlog := [''data'']\<rparr>),
             Inr (0, Some (Failure ''disk full'')))
   \<and> Write (stderr (Capture (Some 0) (Some 1))) (''capture: '' @ Error (Failure ''disk full'') @ ''\<newline>'')
        ((with_broken 0 (Failure ''disk full''))
               (1 := broken (Failure ''pipe closed''),
                0 := (broken (Failure ''disk full''))\<lparr>wlog := [''data'']\<rparr>))
     = Inr ((with_broken 0 (Failure ''disk full''))
               (1 := broken (Failure ''pipe closed''),
                0 := (broken (Failure ''disk full''))\<lparr>wlog := [''data'']\<rparr>,
                1 := (broken (Failure ''pipe closed''))\<lparr>wlog := [''capture: disk full\<newline>'']\<rparr>),
            0, Some (Failure ''pipe closed''))
   \<and> outcome (Executor (Capture (Some 0) (Some 1)) background (script [(''data'', None)]) None None
        ((with_broken 0 (Failure ''disk full''))(1 := broken (Failure ''pipe closed''))))
     = Some (Inr (Some (Failure ''disk full'')))"
proof -
  let ?c = "Capture (Some 0) (Some 1)"
  let ?r = "script [(''data'', None)]"
  let ?s = "(with_broken 0 (Failure ''disk full''))(1 := broken (Failure ''pipe closed''))"
  let ?s1 = "(with_broken 0 (Failure ''disk full''))
               (1 := broken (Failure ''pipe closed''),
                0 := (broken (Failure ''disk full''))\<lparr>wlog := [''data'']\<rparr>)"
  let ?s2 = "?s1(1 := (broken (Failure ''pipe closed''))\<lparr>wlog := [''capture: disk full\<newline>'']\<rparr>)"
  have a: "Copy (stdout ?c) ?r ?s = Some (?s1, Inr (0, Some (Failure ''disk full'')))"
    by (simp add: Copy_def copyBuffer.simps Let_def Capture_def script_def Write_def with_broken_def
        buffers_def broken_def)
  have b: "Write (stderr ?c) (''capture: '' @ Error (Failure ''disk full'') @ ''\<newline>'') ?s1
      = Inr (?s2, 0, Some (Failure ''pipe closed''))"
    by (simp add: Capture_def Write_def with_broken_def buffers_def broken_def)
  show ?thesis
    using diagnostic_failure_ignored[of ?c ?r ?s ?s1 0 "Failure ''disk full''" ?s2 0
        "Failure ''pipe closed''" background None None] a b
    by (simp add: outcome_def)
qed

text \<open>
  Claim C4 as stated does not hold. The executor never looks at its context. Here the
  context is cancelled from the second read on, while the copy is in progress: the copy
  is not aborted, all four bytes reach the destination, nil is returned, and the error
  destination receives no call.
\<close>

theorem cancelled_context_counterexample:
  "cancelled_from 1 1 = Some Canceled
   \<and> outcome (Executor (Capture (Some 0) (Some 1)) (cancelled_from 1)
        (script [(''ab'', None), (''cd'', None)]) None None buffers) = Some (Inr None)
   \<and> contents 0 (Executor (Capture (Some 0) (Some 1)) (cancelled_from 1)
        (script [(''ab'', None), (''cd'', None)]) None None buffers) = Some ''abcd''
   \<and> calls 1 (Executor (Capture (Some 0) (Some 1)) (cancelled_from 1)
        (script [(''ab'', None), (''cd'', None)]) None None buffers) = Some []"
  by (simp add: cancelled_from_def outcome_def contents_def calls_def writer_at_def Executor_def
      Copy_def copyBuffer.simps Let_def Capture_def script_def Write_def buffers_def buffer_def)

text \<open>
  Claim C4, amended. The executor does not observe its context: every execution is the
  same whatever the state of the context, so that cancelling the context does not by
  itself abort a copy in progress. The executor returns the cancellation error exactly
  when the copy fails with it, be it from a read of the input or from a write to the
  destination for normal output. It then takes the failure path of every other error:
  the error destination, when it is a writer, receives one more call, with the line
  \<^verbatim>\<open>"capture: context canceled"\<close> and a newline, and the error is returned. A read that
  returns the cancellation after reads and writes that succeeded is one such case; the
  error destination, if it accepts, then holds the line after what it held (after the
  copied bytes, when the two destinations are one writer).
\<close>

theorem cancellation_surfaced_by_copy:
  "Executor c ctx stdin hout herr s = Executor c ctx' stdin hout herr s
   \<and> (outcome (Executor c ctx stdin hout herr s) = Some (Inr (Some Canceled)) \<longleftrightarrow>
        (\<exists>n. outcome (Copy (stdout c) stdin s) = Some (Inr (n, Some Canceled))))
   \<and> (stderr c = Some h' \<and> outcome (Executor c ctx stdin hout herr s) = Some (Inr (Some Canceled)) \<longrightarrow>
        calls h' (Executor c ctx stdin hout herr s) =
          map_option (\<lambda>l. l @ [''capture: context canceled\<newline>'']) (calls h' (Copy (stdout c) stdin s)))
   \<and> (stdout c = Some h \<and> stderr c = Some h' \<and> accepts (s h) \<and> accepts (s h')
        \<and> reads_until stdin k Canceled \<longrightarrow>
        outcome (Executor c ctx stdin hout herr s) = Some (Inr (Some Canceled))
        \<and> contents h' (Executor c ctx stdin hout herr s) =
            Some ((if h' = h then wdata (s h) @ received stdin k else wdata (s h')) @
                  ''capture: context canceled\<newline>''))"
proof -
  have indep: "Executor c ctx stdin hout herr s = Executor c ctx' stdin hout herr s"
    by (simp add: Executor_def)
  have exact: "outcome (Executor c ctx stdin hout herr s) = Some (Inr (Some Canceled)) \<longleftrightarrow>
        (\<exists>n. outcome (Copy (stdout c) stdin s) = Some (Inr (n, Some Canceled)))"
    by (auto simp: Executor_def outcome_def Write_Some split: option.splits sum.splits)
  have line: "calls h' (Executor c ctx stdin hout herr s) =
          map_option (\<lambda>l. l @ [''capture: context canceled\<newline>'']) (calls h' (Copy (stdout c) stdin s))"
    if e: "stderr c = Some h'"
      and o: "outcome (Executor c ctx stdin hout herr s) = Some (Inr (Some Canceled))"
  proof -
    obtain s1 n where s1: "Copy (stdout c) stdin s = Some (s1, Inr (n, Some Canceled))"
      using o exact by (auto simp: outcome_def)
    let ?line = "''capture: '' @ Error Canceled @ ''\<newline>''"
    define s2 where s2: "s2 = s1(h' := (s1 h')\<lparr>wlog := wlog (s1 h') @ [?line],
               wdata := wdata (s1 h') @ take (nat (fst (wresp (s1 h') (wlog (s1 h')) ?line))) ?line\<rparr>)"
    have w: "Write (stderr c) ?line s1 =
        Inr (s2, fst (wresp (s1 h') (wlog (s1 h')) ?line), snd (wresp (s1 h') (wlog (s1 h')) ?line))"
      unfolding s2 e by (rule Write_Some)
    have "Executor c ctx stdin hout herr s = Some (s2, Inr (Some Canceled))"
      using Executor_failure[OF s1 w] .
    then show ?thesis using s1 s2 by (simp add: calls_def writer_at_def)
  qed
  have reader: "outcome (Executor c ctx stdin hout herr s) = Some (Inr (Some Canceled))
        \<and> contents h' (Executor c ctx stdin hout herr s) =
            Some ((if h' = h then wdata (s h) @ received stdin k else wdata (s h')) @
                  ''capture: context canceled\<newline>'')"
    if "stdout c = Some h" "stderr c = Some h'" "accepts (s h)" "accepts (s h')"
      "reads_until stdin k Canceled"
    using Executor_accepting[of c h h' s stdin k Canceled ctx hout herr] that by simp
  show ?thesis using indep exact line reader by blast
qed

theorem cancellation_surfaced_by_copy_witness:
  "Executor (Capture (Some 0) (Some 1)) (cancelled_from 1)
        (script [(''ab'', None), ('''', Some Canceled)]) None None buffers
     = Executor (Capture (Some 0) (Some 1)) background
        (script [(''ab'', None), ('''', Some Canceled)]) None None buffers
   \<and> stdout (Capture (Some 0) (Some 1)) = Some 0
   \<and> stderr (Capture (Some 0) (Some 1)) = Some 1
   \<and> accepts (buffers 0) \<and> accepts (buffers 1)
   \<and> reads_until (script [(''ab'', None), ('''', Some Canceled)]) 1 Canceled
   \<and> outcome (Copy (stdout (Capture (Some 0) (Some 1)))
        (script [(''ab'', None), ('''', Some Canceled)]) buffers) = Some (Inr (2, Some Canceled))
   \<and> outcome (Executor (Capture (Some 0) (Some 1)) (cancelled_from 1)
        (script [(''ab'', None), ('''', Some Canceled)]) None None buffers) = Some (Inr (Some Canceled))
   \<and> calls 1 (Executor (Capture (Some 0) (Some 1)) (cancelled_from 1)
        (script [(''ab'', None), ('''', Some Canceled)]) None None buffers)
     = Some [''capture: context canceled\<newline>'']
   \<and> contents 1 (Executor (Capture (Some 0) (Some 1)) (cancelled_from 1)
        (script [(''ab'', None), ('''', Some Canceled)]) None None buffers)
     = Some ''capture: context canceled\<newline>''"
proof -
  let ?c = "Capture (Some 0) (Some 1)"
  let ?r = "script [(''ab'', None), ('''', Some Canceled)]"
  let ?E = "Executor ?c (cancelled_from 1) ?r None None buffers"
  have a: "stdout ?c = Some 0" "stderr ?c = Some 1" by (simp_all add: Capture_def)
  have b: "accepts (buffers 0)" "accepts (buffers 1)"
    by (simp_all add: accepts_def buffers_def buffer_def)
  have c: "reads_until ?r 1 Canceled" by (simp add: reads_until_def script_def)
  have d: "wdata (buffers 1) = []" by (simp add: buffers_def buffer_def)
  have cp: "outcome (Copy (stdout ?c) ?r buffers) = Some (Inr (2, Some Canceled))"
    by (simp add: outcome_def Copy_def copyBuffer.simps Let_def Capture_def script_def Write_def
        buffers_def buffer_def)
  have cl: "calls 1 (Copy (stdout ?c) ?r buffers) = Some []"
    by (simp add: calls_def writer_at_def Copy_def copyBuffer.simps Let_def Capture_def script_def
        Write_def buffers_def buffer_def)
  note t = cancellation_surfaced_by_copy[of ?c "cancelled_from 1" ?r None None buffers background 1 0 1]
  have t1: "?E = Executor ?c background ?r None None buffers"
    using t by (rule conjunct1)
  have t4: "outcome ?E = Some (Inr (Some Canceled))
      \<and> contents 1 ?E = Some ((if (1::nat) = 0 then wdata (buffers 0) @ received ?r 1 else wdata (buffers 1)) @
                  ''capture: context canceled\<newline>'')"
    using t[THEN conjunct2, THEN conjunct2, THEN conjunct2] a b c by blast
  have t3: "calls 1 ?E = map_option (\<lambda>l. l @ [''capture: context canceled\<newline>''])
      (calls 1 (Copy (stdout ?c) ?r buffers))"
    using t[THEN conjunct2, THEN conjunct2, THEN conjunct1] a(2) t4 by blast
  have o: "outcome ?E = Some (Inr (Some Canceled))" using t4 by (rule conjunct1)
  have l: "calls 1 ?E = Some [''capture: context canceled\<newline>'']" using t3 cl by simp
  have k: "contents 1 ?E = Some ''capture: context canceled\<newline>''"
    using t4[THEN conjunct2] d by simp
  show ?thesis using t1 a b c cp o l k by blast
qed

text \<open>
  Claim C5. An execution that returns leaves every writer other than the two of the
  command as it was, the writers passed by the host among them; and the execution is
  the same whatever writers the host passes.
\<close>

theorem host_writers_ignored:
  assumes "stdout c \<noteq> Some h" "stderr c \<noteq> Some h" "Executor c ctx stdin hout herr s \<noteq> None"
  shows "writer_at h (Executor c ctx stdin hout herr s) = Some (s h)
       \<and> Executor c ctx stdin hout' herr' s = Executor c ctx stdin hout herr s"
proof -
  obtain s' r where e: "Executor c ctx stdin hout herr s = Some (s', r)"
    using assms(3) by auto
  have "s' h = s h" using Executor_frame[OF e assms(1,2)] .
  then show ?thesis using e by (simp add: writer_at_def Executor_def)
qed

theorem host_writers_ignored_witness:
  "stdout (Capture (Some 0) (Some 1)) \<noteq> Some 2
   \<and> stderr (Capture (Some 0) (Some 1)) \<noteq> Some 2
   \<and> Executor (Capture (Some 0) (Some 1)) background (script [(''partial'', Some (Failure ''boom''))])
        (Some 2) (Some 3) buffers \<noteq> None
   \<and> writer_at 2 (Executor (Capture (Some 0) (Some 1)) background
        (script [(''partial'', Some (Failure ''boom''))]) (Some 2) (Some 3) buffers) = Some buffer
   \<and> Executor (Capture (Some 0) (Some 1)) background (script [(''partial'', Some (Failure ''boom''))])
        None None buffers
     = Executor (Capture (Some 0) (Some 1)) background (script [(''partial'', Some (Failure ''boom''))])
        (Some 2) (Some 3) buffers"
proof -
  let ?c = "Capture (Some 0) (Some 1)"
  let ?r = "script [(''partial'', Some (Failure ''boom''))]"
  have a: "stdout ?c \<noteq> Some 2" "stderr ?c \<noteq> Some 2" by (simp_all add: Capture_def)
  have b: "Executor ?c background ?r (Some 2) (Some 3) buffers \<noteq> None"
    by (simp add: Executor_def Copy_def copyBuffer.simps Let_def Capture_def script_def Write_def
        buffers_def buffer_def)
  have c: "buffers 2 = buffer" by (simp add: buffers_def)
  show ?thesis
    using host_writers_ignored[of ?c 2 background ?r "Some 2" "Some 3" buffers None None] a b c
    by simp
qed

text \<open>
  Claim C6. When the executor returns nil, it has issued no \<^verbatim>\<open>Write\<close> beyond those of the
  copy to the destination for normal output: every writer is as the copy left it, and
  the error destination, when it is another writer, is as it was before the execution.
\<close>

theorem no_diagnostic_on_success:
  assumes "outcome (Executor c ctx stdin hout herr s) = Some (Inr None)"
  shows "(\<forall>h. writer_at h (Executor c ctx stdin hout herr s) = writer_at h (Copy (stdout c) stdin s))
       \<and> (\<forall>h. stderr c = Some h \<longrightarrow> stdout c \<noteq> Some h \<longrightarrow>
             writer_at h (Executor c ctx stdin hout herr s) = Some (s h))"
proof -
  obtain s' where e: "Executor c ctx stdin hout herr s = Some (s', Inr None)"
    using assms by (auto simp: outcome_def)
  then obtain n where cp: "Copy (stdout c) stdin s = Some (s', Inr (n, None))"
    using Executor_returns_nil by blast
  have "\<And>h. stdout c \<noteq> Some h \<Longrightarrow> s' h = s h"
    using Copy_frame[OF cp] by blast
  then show ?thesis using e cp by (simp add: writer_at_def)
qed

theorem no_diagnostic_on_success_witness:
  "outcome (Executor (Capture (Some 0) (Some 1)) background (script [(''line1\<newline>'', None)]) None None buffers)
     = Some (Inr None)
   \<and> stderr (Capture (Some 0) (Some 1)) = Some 1
   \<and> stdout (Capture (Some 0) (Some 1)) \<noteq> Some 1
   \<and> writer_at 1 (Executor (Capture (Some 0) (Some 1)) background (script [(''line1\<newline>'', None)]) None None buffers)
     = Some buffer"
proof -
  let ?c = "Capture (Some 0) (Some 1)"
  let ?r = "script [(''line1\<newline>'', None)]"
  have a: "outcome (Executor ?c background ?r None None buffers) = Some (Inr None)"
    by (simp add: outcome_def Executor_def Copy_def copyBuffer.simps Let_def Capture_def script_def
        Write_def buffers_def buffer_def)
  have b: "stderr ?c = Some 1" "stdout ?c \<noteq> Some 1" by (simp_all add: Capture_def)
  have c: "buffers 1 = buffer" by (simp add: buffers_def)
  have "\<forall>h. stderr ?c = Some h \<longrightarrow> stdout ?c \<noteq> Some h \<longrightarrow>
          writer_at h (Executor ?c background ?r None None buffers) = Some (buffers h)"
    using no_diagnostic_on_success[of ?c background ?r None None buffers, OF a] by (rule conjunct2)
  then have "writer_at 1 (Executor ?c background ?r None None buffers) = Some (buffers 1)"
    using b by blast
  then show ?thesis using a b c by simp
qed

text \<open>
  Claim C7. When the input gives some bytes and then a read error \<open>e\<close> (not \<open>EOF\<close>), and
  the two destinations are two writers that accept, the executor returns \<open>e\<close>, the
  destination for normal output holds the bytes read before the error, and the error
  destination has received one call and holds the one diagnostic line for \<open>e\<close>.
\<close>

theorem partial_input_then_read_error:
  assumes "stdout c = Some h" "stderr c = Some h'" "h' \<noteq> h" "accepts (s h)" "accepts (s h')"
    "reads_until stdin k e" "e \<noteq> EOF"
  shows "outcome (Executor c ctx stdin hout herr s) = Some (Inr (Some e))
       \<and> contents h (Executor c ctx stdin hout herr s) = Some (wdata (s h) @ received stdin k)
       \<and> contents h' (Executor c ctx stdin hout herr s) =
           Some (wdata (s h') @ ''capture: '' @ Error e @ ''\<newline>'')
       \<and> calls h' (Executor c ctx stdin hout herr s) =
           Some (wlog (s h') @ [''capture: '' @ Error e @ ''\<newline>''])"
  using Executor_accepting[of c h h' s stdin k e ctx hout herr] assms by simp

theorem partial_input_then_read_error_witness:
  "stdout (Capture (Some 0) (Some 1)) = Some 0
   \<and> stderr (Capture (Some 0) (Some 1)) = Some 1
   \<and> (1::nat) \<noteq> 0
   \<and> accepts (buffers 0) \<and> accepts (buffers 1)
   \<and> reads_until (script [(''partial'', None), ('''', Some (Failure ''read failed''))]) 1 (Failure ''read failed'')
   \<and> Failure ''read failed'' \<noteq> EOF
   \<and> outcome (Executor (Capture (Some 0) (Some 1)) background
        (script [(''partial'', None), ('''', Some (Failure ''read failed''))]) None None buffers)
     = Some (Inr (Some (Failure ''read failed'')))
   \<and> contents 0 (Executor (Capture (Some 0) (Some 1)) background
        (script [(''partial'', None), ('''', Some (Failure ''read failed''))]) None None buffers)
     = Some ''partial''
   \<and> contents 1 (Executor (Capture (Some 0) (Some 1)) background
        (script [(''partial'', None), ('''', Some (Failure ''read failed''))]) None None buffers)
     = Some ''capture: read failed\<newline>''
   \<and> calls 1 (Executor (Capture (Some 0) (Some 1)) background
        (script [(''partial'', None), ('''', Some (Failure ''read failed''))]) None None buffers)
     = Some [''capture: read failed\<newline>'']"
proof -
  let ?c = "Capture (Some 0) (Some 1)"
  let ?r = "script [(''partial'', None), ('''', Some (Failure ''read failed''))]"
  have a: "stdout ?c = Some 0" "stderr ?c = Some 1" by (simp_all add: Capture_def)
  have b: "accepts (buffers 0)" "accepts (buffers 1)"
    by (simp_all add: accepts_def buffers_def buffer_def)
  have c: "reads_until ?r 1 (Failure ''read failed'')" by (simp add: reads_until_def script_def)
  have d: "wdata (buffers 0) = []" "wdata (buffers 1) = []" "wlog (buffers 1) = []"
    by (simp_all add: buffers_def buffer_def)
  have e: "received ?r 1 = ''partial''"
    by (simp add: received_def chunks_def script_def upt_conv_Cons del: upt_Suc)
  show ?thesis
    using partial_input_then_read_error[of ?c 0 1 buffers ?r 1 "Failure ''read failed''" background None None]
      a b c d e by simp
qed

text \<open>
  Claim C8. When the two destinations are one writer, and it accepts: after the
  execution it holds what it held, then the copied bytes in the order read, then the
  diagnostic line if the copy failed; its calls are in the same order.
\<close>

theorem aliased_destinations_merge:
  assumes "stdout c = Some h" "stderr c = Some h" "accepts (s h)" "reads_until stdin k e"
  shows "contents h (Executor c ctx stdin hout herr s) =
           Some (wdata (s h) @ received stdin k @
                 (if e = EOF then [] else ''capture: '' @ Error e @ ''\<newline>''))
       \<and> calls h (Executor c ctx stdin hout herr s) =
           Some (wlog (s h) @ filter (\<lambda>p. p \<noteq> []) (chunks stdin 0 k) @
                 (if e = EOF then [] else [''capture: '' @ Error e @ ''\<newline>'']))"
  using Executor_accepting[of c h h s stdin k e ctx hout herr] assms by simp

theorem aliased_destinations_merge_witness:
  "stdout (Capture (Some 0) (Some 0)) = Some 0
   \<and> stderr (Capture (Some 0) (Some 0)) = Some 0
   \<and> accepts (buffers 0)
   \<and> reads_until (script [(''partial'', None), ('''', Some (Failure ''boom''))]) 1 (Failure ''boom'')
   \<and> contents 0 (Executor (Capture (Some 0) (Some 0)) background
        (script [(''partial'', None), ('''', Some (Failure ''boom''))]) None None buffers)
     = Some ''partialcapture: boom\<newline>''
   \<and> calls 0 (Executor (Capture (Some 0) (Some 0)) background
        (script [(''partial'', None), ('''', Some (Failure ''boom''))]) None None buffers)
     = Some [''partial'', ''capture: boom\<newline>'']"
proof -
  let ?c = "Capture (Some 0) (Some 0)"
  let ?r = "script [(''partial'', None), ('''', Some (Failure ''boom''))]"
  have a: "stdout ?c = Some 0" "stderr ?c = Some 0" by (simp_all add: Capture_def)
  have b: "accepts (buffers 0)" by (simp add: accepts_def buffers_def buffer_def)
  have c: "reads_until ?r 1 (Failure ''boom'')" by (simp add: reads_until_def script_def)
  have d: "wdata (buffers 0) = []" "wlog (buffers 0) = []" by (simp_all add: buffers_def buffer_def)
  have e: "received ?r 1 = ''partial''" "chunks ?r 0 1 = [''partial'', '''']"
    by (simp_all add: received_def chunks_def script_def upt_conv_Cons del: upt_Suc)
  show ?thesis
    using aliased_destinations_merge[of ?c 0 buffers ?r 1 "Failure ''boom''" background None None]
      a b c d e by simp
qed

text \<open>
  Claim C9. Two executions on the same input byte sequence, which their readers may cut
  into different slices, each with new empty buffers as destinations (two buffers or
  one, the same way in both), with any contexts and any host writers: both return, with
  the same result, and their destinations hold the same bytes.
\<close>

theorem same_input_same_output:
  assumes "reads_until r1 k1 e" "reads_until r2 k2 e" "received r1 k1 = received r2 k2"
    and "stdout c1 = Some o1" "stderr c1 = Some e1" "s1 o1 = buffer" "s1 e1 = buffer"
    and "stdout c2 = Some o2" "stderr c2 = Some e2" "s2 o2 = buffer" "s2 e2 = buffer"
    and "(e1 = o1) = (e2 = o2)"
  shows "outcome (Executor c1 ctx1 r1 hout1 herr1 s1) = outcome (Executor c2 ctx2 r2 hout2 herr2 s2)
       \<and> outcome (Executor c1 ctx1 r1 hout1 herr1 s1) \<noteq> None
       \<and> contents o1 (Executor c1 ctx1 r1 hout1 herr1 s1) = contents o2 (Executor c2 ctx2 r2 hout2 herr2 s2)
       \<and> contents e1 (Executor c1 ctx1 r1 hout1 herr1 s1) = contents e2 (Executor c2 ctx2 r2 hout2 herr2 s2)"
proof -
  have acc: "accepts buffer" by (simp add: accepts_def buffer_def)
  have d: "wdata buffer = []" by (simp add: buffer_def)
  note x1 = Executor_accepting[of c1 o1 e1 s1 r1 k1 e ctx1 hout1 herr1]
  note x2 = Executor_accepting[of c2 o2 e2 s2 r2 k2 e ctx2 hout2 herr2]
  show ?thesis using x1 x2 assms acc d by simp
qed

theorem same_input_same_output_witness:
  "reads_until (script [(''ab'', None), (''cd'', None)]) 2 EOF
   \<and> reads_until (script [(''abcd'', Some EOF)]) 0 EOF
   \<and> received (script [(''ab'', None), (''cd'', None)]) 2 = received (script [(''abcd'', Some EOF)]) 0
   \<and> stdout (Capture (Some 0) (Some 1)) = Some 0 \<and> stderr (Capture (Some 0) (Some 1)) = Some 1
   \<and> buffers 0 = buffer \<and> buffers 1 = buffer
   \<and> stdout (Capture (Some 5) (Some 7)) = Some 5 \<and> stderr (Capture (Some 5) (Some 7)) = Some 7
   \<and> buffers 5 = buffer \<and> buffers 7 = buffer
   \<and> (((1::nat) = 0) = ((7::nat) = 5))
   \<and> outcome (Executor (Capture (Some 0) (Some 1)) background (script [(''ab'', None), (''cd'', None)]) None None buffers)
     = outcome (Executor (Capture (Some 5) (Some 7)) (cancelled_from 0) (script [(''abcd'', Some EOF)]) (Some 2) (Some 3) buffers)
   \<and> outcome (Executor (Capture (Some 0) (Some 1)) background (script [(''ab'', None), (''cd'', None)]) None None buffers) \<noteq> None
   \<and> contents 0 (Executor (Capture (Some 0) (Some 1)) background (script [(''ab'', None), (''cd'', None)]) None None buffers)
     = contents 5 (Executor (Capture (Some 5) (Some 7)) (cancelled_from 0) (script [(''abcd'', Some EOF)]) (Some 2) (Some 3) buffers)
   \<and> contents 1 (Executor (Capture (Some 0) (Some 1)) background (script [(''ab'', None), (''cd'', None)]) None None buffers)
     = contents 7 (Executor (Capture (Some 5) (Some 7)) (cancelled_from 0) (script [(''abcd'', Some EOF)]) (Some 2) (Some 3) buffers)"
proof -
  let ?r1 = "script [(''ab'', None), (''cd'', None)]"
  let ?r2 = "script [(''abcd'', Some EOF)]"
  have a: "reads_until ?r1 2 EOF" by (auto simp: reads_until_def script_def less_Suc_eq numeral_2_eq_2)
  have b: "reads_until ?r2 0 EOF" by (simp add: reads_until_def script_def)
  have c: "received ?r1 2 = received ?r2 0"
    by (simp add: received_def chunks_def script_def upt_conv_Cons numeral_2_eq_2 del: upt_Suc)
  have d: "stdout (Capture (Some 0) (Some 1)) = Some 0" "stderr (Capture (Some 0) (Some 1)) = Some 1"
    "stdout (Capture (Some 5) (Some 7)) = Some 5" "stderr (Capture (Some 5) (Some 7)) = Some 7"
    by (simp_all add: Capture_def)
  have e: "buffers 0 = buffer" "buffers 1 = buffer" "buffers 5 = buffer" "buffers 7 = buffer"
    by (simp_all add: buffers_def)
  have f: "((1::nat) = 0) = ((7::nat) = 5)" by simp
  show ?thesis
    using same_input_same_output[of ?r1 2 EOF ?r2 0 "Capture (Some 0) (Some 1)" 0 1 buffers
        "Capture (Some 5) (Some 7)" 5 7 buffers background None None "cancelled_from 0" "Some 2" "Some 3",
        OF a b c d(1,2) e(1,2) d(3,4) e(3,4) f]
      a b c d e f by blast
qed

text \<open>
  Claim C10. When the error destination is nil and the copy fails with the error \<open>e\<close>,
  the executor does not panic: it writes nothing after the copy and returns \<open>e\<close>. With a
  nil error destination the executor is, on every input and heap, the copy with its
  byte count dropped: no path reaches the error destination.
\<close>

theorem nil_stderr_skips_diagnostic:
  assumes "stderr c = None" "Copy (stdout c) stdin s = Some (s1, Inr (n, Some e))"
  shows "Executor c ctx stdin hout herr s = Some (s1, Inr (Some e))
       \<and> (\<forall>r s0. Executor c ctx r hout herr s0 =
             map_option (\<lambda>y. (fst y, map_sum id snd (snd y))) (Copy (stdout c) r s0))"
proof -
  have "Executor c ctx stdin hout herr s = Some (s1, Inr (Some e))"
    using assms(2,1) by (rule Executor_failure_nil)
  moreover have "\<forall>r s0. Executor c ctx r hout herr s0 =
      map_option (\<lambda>y. (fst y, map_sum id snd (snd y))) (Copy (stdout c) r s0)"
    using assms(1) by (auto simp: Executor_def split: option.splits sum.splits)
  ultimately show ?thesis by simp
qed

theorem nil_stderr_skips_diagnostic_witness:
  "stderr (Capture (Some 0) None) = None
   \<and> Copy (stdout (Capture (Some 0) None)) (script [(''partial'', Some (Failure ''boom''))]) buffers
       = Some (buffers(0 := buffer\<lparr>wlog := [''partial''], wdata := ''partial''\<rparr>), Inr (7, Some (Failure ''boom'')))
   \<and> Executor (Capture (Some 0) None) background (script [(''partial'', Some (Failure ''boom''))]) None None buffers
       = Some (buffers(0 := buffer\<lparr>wlog := [''partial''], wdata := ''partial''\<rparr>), Inr (Some (Failure ''boom'')))"
proof -
  let ?c = "Capture (Some 0) None"
  let ?r = "script [(''partial'', Some (Failure ''boom''))]"
  let ?s1 = "buffers(0 := buffer\<lparr>wlog := [''partial''], wdata := ''partial''\<rparr>)"
  have a: "stderr ?c = None" by (simp add: Capture_def)
  have b: "Copy (stdout ?c) ?r buffers = Some (?s1, Inr (7, Some (Failure ''boom'')))"
    by (simp add: Copy_def copyBuffer.simps Let_def Capture_def script_def Write_def
        buffers_def buffer_def)
  note t = nil_stderr_skips_diagnostic[of ?c ?r buffers ?s1 7 "Failure ''boom''" background None None,
      OF a b]
  show ?thesis using a b t[THEN conjunct1] by blast
qed

end
